theory Spec2Isabelle
  imports Main "HOL-Library.Word"
begin

section \<open>Data: timesteps, the trajectory store, exceptions\<close>

text \<open>
  A numeric array is kept as the list of its elements. The elements are integers: an
  array of 64-bit integers as numpy hands it to \<^verbatim>\<open>add\<close>, or an array of 32-bit
  integers as jax stores it, whose values lie in the 32-bit range. Arrays of floating-point
  numbers are not represented. A timestep is the dictionary built in
  \<^verbatim>\<open>FlashbaxReplayBuffer.add\<close>, with its six keys.
\<close>

type_synonym array = "int list"

record timestep =
  observations :: array
  actions :: array
  rewards :: array
  terminals :: array
  truncations :: array
  infos :: array

text \<open>
  \<^verbatim>\<open>TrajectoryBufferState\<close>: the stored experience (the time axis of the single row,
  \<^verbatim>\<open>add_batch_size = 1\<close>), the write cursor and the full flag. The capacity of a state
  is the length of its time axis.
\<close>

record buffer_state =
  experience :: "timestep list"
  current_index :: nat
  is_full :: bool

text \<open>A sampled batch: \<^verbatim>\<open>batch_size\<close> windows, each a list of timesteps.\<close>

type_synonym experience_batch = "timestep list list"

text \<open>A generator key is the pair of 32-bit words of \<^verbatim>\<open>jax.random.PRNGKey\<close>.\<close>

type_synonym prng_key = "32 word \<times> 32 word"

text \<open>The Python exceptions that can travel through the facade.\<close>

datatype exn = ValueError | AttributeError | AssertionError | IndexError | OSError

section \<open>The library interface the facade is written against\<close>

text \<open>
  \<^verbatim>\<open>fbx.make_trajectory_buffer\<close> returns an object of pure functions. \<^verbatim>\<open>sample\<close>
  receives whatever the facade holds in \<^verbatim>\<open>_buffer_state\<close>, which is \<^verbatim>\<open>None\<close> until
  the first add.
\<close>

record trajectory_buffer =
  init :: "timestep \<Rightarrow> buffer_state"
  add :: "buffer_state \<Rightarrow> timestep list list \<Rightarrow> exn + buffer_state"
  sample :: "buffer_state option \<Rightarrow> prng_key \<Rightarrow> exn + experience_batch"

text \<open>
  The calls into flashbax, jax and the vault are parameters of the model: the factory
  (arguments in the order \<^verbatim>\<open>add_batch_size\<close>, \<^verbatim>\<open>sample_batch_size\<close>,
  \<^verbatim>\<open>sample_sequence_length\<close>, \<^verbatim>\<open>period\<close>, \<^verbatim>\<open>min_length_time_axis\<close>,
  \<^verbatim>\<open>max_size\<close>), \<^verbatim>\<open>jax.random.PRNGKey\<close>, \<^verbatim>\<open>jax.random.split(key, 2)\<close>, and
  \<^verbatim>\<open>Vault(vault_name, vault_uid, rel_dir).read()\<close>. Each may raise.
\<close>

record library =
  make_trajectory_buffer ::
    "nat \<Rightarrow> nat \<Rightarrow> nat \<Rightarrow> nat \<Rightarrow> nat \<Rightarrow> nat \<Rightarrow> exn + trajectory_buffer"
  PRNGKey :: "int \<Rightarrow> prng_key"
  random_split :: "prng_key \<Rightarrow> prng_key \<times> prng_key"
  Vault_read :: "string \<Rightarrow> string \<Rightarrow> string \<Rightarrow> exn + buffer_state"

text \<open>\<^verbatim>\<open>jax.jit\<close> compiles a function and leaves its meaning alone.\<close>

definition jit :: "'a \<Rightarrow> 'a" where
  "jit f = f"

section \<open>The facade \<^verbatim>\<open>FlashbaxReplayBuffer\<close>\<close>

text \<open>
  The attributes of the object, without the leading underscore. Sizes are counts and are
  kept as natural numbers.
\<close>

record facade =
  sequence_length :: nat
  max_size :: nat
  batch_size :: nat
  replay_buffer :: trajectory_buffer
  buffer_sample_fn :: "buffer_state option \<Rightarrow> prng_key \<Rightarrow> exn + experience_batch"
  buffer_add_fn :: "buffer_state \<Rightarrow> timestep list list \<Rightarrow> exn + buffer_state"
  buffer_state :: "buffer_state option"
  rng_key :: prng_key

text \<open>\<^verbatim>\<open>__init__\<close>; the factory's exception, if any, leaves no object behind.\<close>

definition FlashbaxReplayBuffer ::
  "library \<Rightarrow> nat \<Rightarrow> nat \<Rightarrow> nat \<Rightarrow> nat \<Rightarrow> int \<Rightarrow> exn + facade" where
  "FlashbaxReplayBuffer L sequence_length' max_size' batch_size' sample_period seed =
     (case make_trajectory_buffer L 1 batch_size' sequence_length' sample_period 1 max_size' of
        Inl e \<Rightarrow> Inl e
      | Inr b \<Rightarrow> Inr \<lparr> sequence_length = sequence_length',
                      max_size = max_size',
                      batch_size = batch_size',
                      replay_buffer = b,
                      buffer_sample_fn = jit (sample b),
                      buffer_add_fn = jit (add b),
                      buffer_state = None,
                      rng_key = PRNGKey L seed \<rparr>)"

text \<open>
  \<^verbatim>\<open>add\<close>: the store is initialised from the first timestep as it was passed, the
  timestep is converted and gets its unit batch and time axes, and the stored state is replaced by the one the add function
  returns. An exception of the add function leaves the state as initialised.
\<close>

text \<open>
  \<^verbatim>\<open>jnp.array(x)\<close> of line 80: jax keeps integers in 32 bits, so every value of a
  64-bit array is narrowed to its low 32 bits, read as a signed number. A value within the
  32-bit range is kept.
\<close>

definition jnp_array :: "array \<Rightarrow> array" where
  "jnp_array x = map (\<lambda>v. sint (word_of_int v :: 32 word)) x"

text \<open>\<^verbatim>\<open>tree.map_structure\<close> over the six entries of the dictionary.\<close>

definition map_structure :: "(array \<Rightarrow> array) \<Rightarrow> timestep \<Rightarrow> timestep" where
  "map_structure f t = \<lparr> observations = f (observations t),
                          actions = f (actions t),
                          rewards = f (rewards t),
                          terminals = f (terminals t),
                          truncations = f (truncations t),
                          infos = f (infos t) \<rparr>"

text \<open>The arrays, and the timesteps, whose values all lie in the 32-bit range.\<close>

definition int32_range :: "array \<Rightarrow> bool" where
  "int32_range x \<longleftrightarrow> list_all (\<lambda>v. - (2 ^ 31) \<le> v \<and> v < 2 ^ 31) x"

definition fits_int32 :: "timestep \<Rightarrow> bool" where
  "fits_int32 t \<longleftrightarrow>
     int32_range (observations t) \<and> int32_range (actions t) \<and> int32_range (rewards t) \<and>
     int32_range (terminals t) \<and> int32_range (truncations t) \<and> int32_range (infos t)"

definition add_dims :: "timestep \<Rightarrow> timestep list list" where
  "add_dims t = [[map_structure jnp_array t]]"

definition facade_add :: "facade \<Rightarrow> timestep \<Rightarrow> (exn + unit) \<times> facade" where
  "facade_add fa t =
     (let s = (case buffer_state fa of
                 None \<Rightarrow> init (replay_buffer fa) t
               | Some s0 \<Rightarrow> s0);
          fa1 = fa\<lparr>buffer_state := Some s\<rparr>
      in case buffer_add_fn fa1 s (add_dims t) of
           Inl e \<Rightarrow> (Inl e, fa1)
         | Inr s' \<Rightarrow> (Inr (), fa1\<lparr>buffer_state := Some s'\<rparr>))"

text \<open>
  \<^verbatim>\<open>sample\<close>: the key is split and the continuation stored before the sampler runs, so
  the stored key has moved on also when the sampler raises.
\<close>

definition sample_key :: "library \<Rightarrow> facade \<Rightarrow> prng_key" where
  "sample_key L fa = snd (random_split L (rng_key fa))"

definition facade_sample :: "library \<Rightarrow> facade \<Rightarrow> (exn + experience_batch) \<times> facade" where
  "facade_sample L fa =
     (let fa1 = fa\<lparr>rng_key := fst (random_split L (rng_key fa))\<rparr>
      in (buffer_sample_fn fa1 (buffer_state fa1) (sample_key L fa), fa1))"

text \<open>
  \<^verbatim>\<open>populate_from_vault\<close>: the whole body sits in one \<^verbatim>\<open>try\<close> whose handler catches
  \<^verbatim>\<open>ValueError\<close> only; whatever was assigned before the exception stays assigned.
\<close>

definition except_ValueError :: "exn \<Rightarrow> facade \<Rightarrow> (exn + bool) \<times> facade" where
  "except_ValueError e fa = (if e = ValueError then (Inr False, fa) else (Inl e, fa))"

definition populate_from_vault ::
  "library \<Rightarrow> facade \<Rightarrow> string \<Rightarrow> string \<Rightarrow> string \<Rightarrow> string \<Rightarrow> (exn + bool) \<times> facade" where
  "populate_from_vault L fa env_name scenario_name dataset_name rel_dir =
     (case Vault_read L (env_name @ ''/'' @ scenario_name @ ''.vlt'') dataset_name rel_dir of
        Inl e \<Rightarrow> except_ValueError e fa
      | Inr st \<Rightarrow>
          (let fa1 = fa\<lparr>buffer_state := Some st\<rparr>;
               fa2 = fa1\<lparr>max_size := current_index st\<rparr>
           in case make_trajectory_buffer L 1 (batch_size fa2) (sequence_length fa2) 1 1
                     (max_size fa2) of
                Inl e \<Rightarrow> except_ValueError e fa2
              | Inr b \<Rightarrow>
                  (Inr True,
                   fa2\<lparr>replay_buffer := b,
                       buffer_sample_fn := jit (sample b),
                       buffer_add_fn := jit (add b)\<rparr>)))"

section \<open>Call histories\<close>

text \<open>
  A caller drives the facade by a sequence of calls; an exception ends the call that raised
  it and the caller goes on with the object as that call left it.
\<close>

datatype call = Add timestep | Sample | Populate string string string string

datatype outcome = Raised exn | Added | Sampled experience_batch | Populated bool

fun step :: "library \<Rightarrow> facade \<Rightarrow> call \<Rightarrow> outcome \<times> facade" where
  "step L fa (Add t) =
     (case facade_add fa t of
        (Inl e, fa') \<Rightarrow> (Raised e, fa')
      | (Inr u, fa') \<Rightarrow> (Added, fa'))"
| "step L fa Sample =
     (case facade_sample L fa of
        (Inl e, fa') \<Rightarrow> (Raised e, fa')
      | (Inr b, fa') \<Rightarrow> (Sampled b, fa'))"
| "step L fa (Populate env_name scenario_name dataset_name rel_dir) =
     (case populate_from_vault L fa env_name scenario_name dataset_name rel_dir of
        (Inl e, fa') \<Rightarrow> (Raised e, fa')
      | (Inr ok, fa') \<Rightarrow> (Populated ok, fa'))"

fun run :: "library \<Rightarrow> facade \<Rightarrow> call list \<Rightarrow> outcome list \<times> facade" where
  "run L fa [] = ([], fa)"
| "run L fa (c # cs) =
     (let (out, fa') = step L fa c;
          (outs, fa'') = run L fa' cs
      in (out # outs, fa''))"

text \<open>The outcomes of the sample calls of a history, in order.\<close>

fun sampled :: "call list \<Rightarrow> outcome list \<Rightarrow> outcome list" where
  "sampled (Sample # cs) (out # outs) = out # sampled cs outs"
| "sampled (c # cs) (out # outs) = sampled cs outs"
| "sampled cs outs = []"


text \<open>
  What a \<^verbatim>\<open>sample\<close> call returns, told from the seed and the history alone: the key
  stored after \<^verbatim>\<open>n\<close> sample calls is the seed's key advanced \<^verbatim>\<open>n\<close> times, the store
  is what the adds made so far leave starting from no store, and the call returns what the
  sampler of the buffer \<^verbatim>\<open>b\<close> returns for that store and the second half of the split
  of that key.
\<close>

definition nth_key :: "library \<Rightarrow> int \<Rightarrow> nat \<Rightarrow> prng_key" where
  "nth_key L seed n = ((\<lambda>k. fst (random_split L k)) ^^ n) (PRNGKey L seed)"

definition add_to :: "trajectory_buffer \<Rightarrow> buffer_state option \<Rightarrow> timestep \<Rightarrow> buffer_state option" where
  "add_to b st t =
     (let s = (case st of None \<Rightarrow> init b t | Some s0 \<Rightarrow> s0)
      in case add b s (add_dims t) of
           Inl e \<Rightarrow> Some s
         | Inr s' \<Rightarrow> Some s')"

fun expected_samples ::
  "library \<Rightarrow> trajectory_buffer \<Rightarrow> int \<Rightarrow> timestep list \<Rightarrow> nat \<Rightarrow> call list \<Rightarrow> outcome list" where
  "expected_samples L b seed added n [] = []"
| "expected_samples L b seed added n (Add t # cs) =
     expected_samples L b seed (added @ [t]) n cs"
| "expected_samples L b seed added n (Sample # cs) =
     (case sample b (foldl (add_to b) None added) (snd (random_split L (nth_key L seed n))) of
        Inl e \<Rightarrow> Raised e
      | Inr batch \<Rightarrow> Sampled batch)
     # expected_samples L b seed added (Suc n) cs"
| "expected_samples L b seed added n (Populate env_name scenario_name dataset_name rel_dir # cs) =
     expected_samples L b seed added n cs"

text \<open>
  Two runs may see different vault directories; they share the generator and the factory
  when their libraries agree on everything else. A history of add and sample calls has no
  \<^verbatim>\<open>populate_from_vault\<close> call in it.
\<close>

definition same_generator :: "library \<Rightarrow> library \<Rightarrow> bool" where
  "same_generator L1 L2 \<longleftrightarrow>
     make_trajectory_buffer L1 = make_trajectory_buffer L2 \<and>
     PRNGKey L1 = PRNGKey L2 \<and>
     random_split L1 = random_split L2"

fun is_populate :: "call \<Rightarrow> bool" where
  "is_populate (Populate env_name scenario_name dataset_name rel_dir) = True"
| "is_populate c = False"

text \<open>Adding a list of timesteps one call at a time, stopping at the first exception.\<close>

fun add_all :: "facade \<Rightarrow> timestep list \<Rightarrow> (exn + unit) \<times> facade" where
  "add_all fa [] = (Inr (), fa)"
| "add_all fa (t # ts) =
     (case facade_add fa t of
        (Inl e, fa') \<Rightarrow> (Inl e, fa')
      | (Inr u, fa') \<Rightarrow> add_all fa' ts)"

section \<open>The trajectory store and the sampler\<close>

text \<open>
  The store and the sampler are functions of the flashbax library and are not among the
  sources. The definitions of this section are modelled from the specification, sections
  3, 4.1 and 4.2, for the one row the facade uses (\<^verbatim>\<open>add_batch_size = 1\<close>).
\<close>

text \<open>
  Modelled from the spec: the shape of a timestep (section 3), here the number of elements
  of each of its six fields, which \<^verbatim>\<open>add\<close> compares with the shape recorded at
  \<^verbatim>\<open>init\<close>.
\<close>

definition shape :: "timestep \<Rightarrow> nat list" where
  "shape t = [length (observations t), length (actions t), length (rewards t),
              length (terminals t), length (truncations t), length (infos t)]"

text \<open>
  Modelled from the spec: the zero filling of the backing storage (section 4.1), a timestep
  of the example's shape with every element 0.
\<close>

definition zeros_like :: "array \<Rightarrow> array" where
  "zeros_like x = map (\<lambda>_. 0) x"

definition empty_like :: "timestep \<Rightarrow> timestep" where
  "empty_like t = \<lparr> observations = zeros_like (observations t),
                    actions = zeros_like (actions t),
                    rewards = zeros_like (rewards t),
                    terminals = zeros_like (terminals t),
                    truncations = zeros_like (truncations t),
                    infos = zeros_like (infos t) \<rparr>"

text \<open>
  Modelled from the spec: \<^verbatim>\<open>init\<close> of the trajectory store (section 4.1): zero-filled
  backing storage for \<^verbatim>\<open>capacity\<close> timesteps of the example's shape, cursor 0, not full.
\<close>

definition tb_init :: "nat \<Rightarrow> timestep \<Rightarrow> buffer_state" where
  "tb_init capacity example =
     \<lparr> experience = replicate capacity (empty_like example),
       current_index = 0,
       is_full = False \<rparr>"

text \<open>
  Modelled from the spec: \<^verbatim>\<open>add\<close> of the trajectory store (section 4.1): the timestep,
  framed by unit batch and time axes, is written at the cursor, the cursor advances modulo
  the capacity, and the full flag is set once the cursor has passed the end. A timestep
  whose shape differs from the stored one is refused, and so is any write to a store
  without a slot.
\<close>

fun tb_add :: "buffer_state \<Rightarrow> timestep list list \<Rightarrow> exn + buffer_state" where
  "tb_add s [[t]] =
     (if experience s = [] \<or> \<not> list_all (\<lambda>e. shape e = shape t) (experience s)
      then Inl AssertionError
      else Inr \<lparr> experience = (experience s)[current_index s mod length (experience s) := t],
                  current_index = (current_index s + 1) mod length (experience s),
                  is_full = (is_full s \<or> length (experience s) \<le> current_index s + 1) \<rparr>)"
| "tb_add s batch = Inl AssertionError"

text \<open>
  Modelled from the spec: the written part of a store (section 3): how many timesteps are
  live, where the oldest one sits, and the live timesteps from oldest to newest; for a
  facade, the live timesteps of the store it holds.
\<close>

definition occupancy :: "buffer_state \<Rightarrow> nat" where
  "occupancy s = (if is_full s then length (experience s) else current_index s)"

definition head :: "buffer_state \<Rightarrow> nat" where
  "head s = (if is_full s then current_index s else 0)"

definition live :: "buffer_state \<Rightarrow> timestep list" where
  "live s = (if is_full s then rotate (current_index s) (experience s)
             else take (current_index s) (experience s))"

definition retrievable :: "facade \<Rightarrow> timestep list" where
  "retrievable fa = (case buffer_state fa of None \<Rightarrow> [] | Some s \<Rightarrow> live s)"

text \<open>
  Modelled from the spec: the eligible start offsets of the sampler (section 4.2), counted
  from the oldest live timestep: the multiples of \<^verbatim>\<open>period\<close> whose window of
  \<^verbatim>\<open>sequence_length\<close> timesteps lies within the written data.
\<close>

definition eligible_offsets :: "nat \<Rightarrow> nat \<Rightarrow> buffer_state \<Rightarrow> nat list" where
  "eligible_offsets sl p s =
     filter (\<lambda>off. p dvd off \<and> off + sl \<le> occupancy s) [0..<occupancy s + 1]"

text \<open>
  Modelled from the spec: the draw (section 4.2): \<^verbatim>\<open>n\<close> offsets, each taken from the
  candidates by the generator's bits for the key, independently and with replacement. The
  sampler runs compiled (\<^verbatim>\<open>jax.jit\<close> in \<^verbatim>\<open>__init__\<close>), where the values in the store
  cannot make it raise: with no candidate the draw yields offset 0, the lower end of its
  range.
\<close>

definition choose_offsets ::
  "(prng_key \<Rightarrow> nat \<Rightarrow> nat) \<Rightarrow> prng_key \<Rightarrow> nat \<Rightarrow> nat list \<Rightarrow> nat list" where
  "choose_offsets bits key n cands =
     map (\<lambda>j. if cands = [] then 0 else cands ! (bits key j mod length cands)) [0..<n]"

text \<open>
  Modelled from the spec: the contiguous window (section 4.2) of \<^verbatim>\<open>sl\<close> consecutive
  slots that starts \<^verbatim>\<open>off\<close> after the oldest live timestep, read around the ring.
\<close>

definition window :: "buffer_state \<Rightarrow> nat \<Rightarrow> nat \<Rightarrow> timestep list" where
  "window s sl off =
     map (\<lambda>i. experience s ! ((head s + off + i) mod length (experience s))) [0..<sl]"

text \<open>
  Modelled from the spec: the start offsets of one \<^verbatim>\<open>sample\<close> call (section 4.2),
  \<^verbatim>\<open>bs\<close> draws from the eligible offsets of the store.
\<close>

definition sample_offsets ::
  "(prng_key \<Rightarrow> nat \<Rightarrow> nat) \<Rightarrow> nat \<Rightarrow> nat \<Rightarrow> nat \<Rightarrow> buffer_state \<Rightarrow> prng_key \<Rightarrow> nat list" where
  "sample_offsets bits bs sl p s key = choose_offsets bits key bs (eligible_offsets sl p s)"

text \<open>
  Modelled from the spec: \<^verbatim>\<open>sample\<close> of the sampler (section 4.2): the windows at the
  drawn offsets. Without a state object (\<^verbatim>\<open>None\<close>) the attribute access fails; a store
  without a slot cannot be read.
\<close>

definition tb_sample ::
  "(prng_key \<Rightarrow> nat \<Rightarrow> nat) \<Rightarrow> nat \<Rightarrow> nat \<Rightarrow> nat \<Rightarrow> buffer_state option \<Rightarrow> prng_key
     \<Rightarrow> exn + experience_batch" where
  "tb_sample bits bs sl p st key =
     (case st of
        None \<Rightarrow> Inl AttributeError
      | Some s \<Rightarrow>
          if experience s = [] then Inl IndexError
          else Inr (map (window s sl) (sample_offsets bits bs sl p s key)))"

text \<open>
  Modelled from the spec: the start offsets (section 4.2) that the sampler draws at the
  next \<^verbatim>\<open>sample\<close> call of a facade whose sampler was built for \<^verbatim>\<open>bs\<close> windows of length \<^verbatim>\<open>sl\<close> and period \<^verbatim>\<open>p\<close>.
\<close>

definition drawn_offsets ::
  "(prng_key \<Rightarrow> nat \<Rightarrow> nat) \<Rightarrow> library \<Rightarrow> nat \<Rightarrow> nat \<Rightarrow> nat \<Rightarrow> facade \<Rightarrow> nat list" where
  "drawn_offsets bits L bs sl p fa =
     (case buffer_state fa of
        None \<Rightarrow> []
      | Some s \<Rightarrow> sample_offsets bits bs sl p s (sample_key L fa))"

text \<open>
  Modelled from the spec: the factory. The capacity of the store it initialises is
  \<^verbatim>\<open>max_size\<close>; the batch size, the window length and the period are bound into the
  sampler. The facade always passes \<^verbatim>\<open>add_batch_size = 1\<close> and
  \<^verbatim>\<open>min_length_time_axis = 1\<close>.
\<close>

definition fbx_make_trajectory_buffer ::
  "(prng_key \<Rightarrow> nat \<Rightarrow> nat) \<Rightarrow> nat \<Rightarrow> nat \<Rightarrow> nat \<Rightarrow> nat \<Rightarrow> nat \<Rightarrow> nat
     \<Rightarrow> exn + trajectory_buffer" where
  "fbx_make_trajectory_buffer bits add_batch_size sample_batch_size sample_sequence_length
       period min_length_time_axis max_size' =
     Inr \<lparr> init = tb_init max_size',
           add = tb_add,
           sample = tb_sample bits sample_batch_size sample_sequence_length period \<rparr>"

text \<open>
  Modelled from the spec: the library with this store and sampler; the generator (\<^verbatim>\<open>bits\<close>, \<^verbatim>\<open>key_of\<close>,
  \<^verbatim>\<open>split\<close>) and the contents of the vault directory stay parameters.
\<close>

definition flashbax ::
  "(prng_key \<Rightarrow> nat \<Rightarrow> nat) \<Rightarrow> (int \<Rightarrow> prng_key) \<Rightarrow> (prng_key \<Rightarrow> prng_key \<times> prng_key)
     \<Rightarrow> (string \<Rightarrow> string \<Rightarrow> string \<Rightarrow> exn + buffer_state) \<Rightarrow> library" where
  "flashbax bits key_of split vault =
     \<lparr> make_trajectory_buffer = fbx_make_trajectory_buffer bits,
       PRNGKey = key_of,
       random_split = split,
       Vault_read = vault \<rparr>"

text \<open>
  The store of capacity \<^verbatim>\<open>cap\<close> after the timesteps \<^verbatim>\<open>ts\<close> were added to it, one
  by one, starting from the initialised store: below the capacity the slots hold the
  timesteps in order, followed by the zero filling; from the capacity on, the ring read from
  the cursor holds the last \<^verbatim>\<open>cap\<close> timesteps in order.
\<close>

definition store_after :: "nat \<Rightarrow> timestep list \<Rightarrow> buffer_state \<Rightarrow> bool" where
  "store_after cap ts s \<longleftrightarrow>
     length (experience s) = cap \<and>
     current_index s = length ts mod cap \<and>
     is_full s = (cap \<le> length ts) \<and>
     list_all (\<lambda>e. shape e = shape (hd ts)) (experience s) \<and>
     (if length ts < cap
      then experience s = ts @ replicate (cap - length ts) (empty_like (hd ts))
      else rotate (length ts mod cap) (experience s) = drop (length ts - cap) ts)"

section \<open>Concrete inputs for the examples\<close>

text \<open>
  A generator to run the examples with: the key of a seed is its high and its low word, a
  split yields the two children of the low word in the binary tree of 32-bit numbers, and
  the bits of a draw are read off the key.
\<close>

definition counter_bits :: "prng_key \<Rightarrow> nat \<Rightarrow> nat" where
  "counter_bits key j = unat (fst key) + unat (snd key) + j"

definition tree_split :: "prng_key \<Rightarrow> prng_key \<times> prng_key" where
  "tree_split k = ((fst k, 2 * snd k + 1), (fst k, 2 * snd k + 2))"

definition seed_key :: "int \<Rightarrow> prng_key" where
  "seed_key seed = (word_of_int (seed div 2 ^ 32), word_of_int seed)"

text \<open>A timestep of one agent that carries the scalar reward \<^verbatim>\<open>r\<close>.\<close>

definition reward_step :: "int \<Rightarrow> timestep" where
  "reward_step r = \<lparr> observations = [0], actions = [0], rewards = [r],
                      terminals = [0], truncations = [0], infos = [] \<rparr>"

text \<open>
  Vault directories: one without any vault (the \<^verbatim>\<open>Vault\<close> constructor raises
  \<^verbatim>\<open>ValueError\<close>), one whose files cannot be read (an \<^verbatim>\<open>OSError\<close>), and one
  holding a store of capacity 5 into which two timesteps were written.
\<close>

definition no_vault :: "string \<Rightarrow> string \<Rightarrow> string \<Rightarrow> exn + buffer_state" where
  "no_vault vault_name vault_uid rel_dir = Inl ValueError"

definition unreadable_vault :: "string \<Rightarrow> string \<Rightarrow> string \<Rightarrow> exn + buffer_state" where
  "unreadable_vault vault_name vault_uid rel_dir = Inl OSError"

definition stored_two :: buffer_state where
  "stored_two = \<lparr> experience = [reward_step 7, reward_step 8, empty_like (reward_step 7),
                                  empty_like (reward_step 7), empty_like (reward_step 7)],
                    current_index = 2,
                    is_full = False \<rparr>"

definition two_step_vault :: "string \<Rightarrow> string \<Rightarrow> string \<Rightarrow> exn + buffer_state" where
  "two_step_vault vault_name vault_uid rel_dir =
     (if vault_name = ''smac/3m.vlt'' \<and> vault_uid = ''Good'' \<and> rel_dir = ''datasets''
      then Inr stored_two else Inl ValueError)"

definition example_library :: "(string \<Rightarrow> string \<Rightarrow> string \<Rightarrow> exn + buffer_state) \<Rightarrow> library" where
  "example_library vault = flashbax counter_bits seed_key tree_split vault"

text \<open>
  A factory that refuses a window longer than the time axis with \<^verbatim>\<open>ValueError\<close>, the
  argument check of \<^verbatim>\<open>fbx.make_trajectory_buffer\<close>, and the library that has it.
\<close>

definition checked_factory ::
  "nat \<Rightarrow> nat \<Rightarrow> nat \<Rightarrow> nat \<Rightarrow> nat \<Rightarrow> nat \<Rightarrow> exn + trajectory_buffer" where
  "checked_factory add_batch_size sample_batch_size sample_sequence_length period
       min_length_time_axis max_size' =
     (if max_size' < sample_sequence_length then Inl ValueError
      else fbx_make_trajectory_buffer counter_bits add_batch_size sample_batch_size
             sample_sequence_length period min_length_time_axis max_size')"

definition checked_library :: library where
  "checked_library = (example_library two_step_vault)\<lparr>make_trajectory_buffer := checked_factory\<rparr>"

text \<open>The facade a constructor call returns, when it returns one.\<close>

definition constructed :: "exn + facade \<Rightarrow> facade" where
  "constructed r = (case r of Inr fa \<Rightarrow> fa)"

section \<open>Loading a snapshot\<close>

text \<open>
  C1 (as amended). When the load of the snapshot itself raises, that is the \<^verbatim>\<open>Vault\<close>
  constructor or its \<^verbatim>\<open>read\<close>, every attribute of the facade is as it was before the
  call. The call returns \<^verbatim>\<open>False\<close> when the exception is a \<^verbatim>\<open>ValueError\<close>; any other
  exception leaves \<^verbatim>\<open>populate_from_vault\<close> and reaches the caller.
\<close>

theorem populate_load_failure:
  assumes "Vault_read L (env_name @ ''/'' @ scenario_name @ ''.vlt'') dataset_name rel_dir = Inl e"
  shows "populate_from_vault L fa env_name scenario_name dataset_name rel_dir =
           (if e = ValueError then Inr False else Inl e, fa)"
  using assms by (simp add: populate_from_vault_def except_ValueError_def)

theorem populate_load_failure_witness:
  "populate_from_vault (example_library no_vault)
     (constructed (FlashbaxReplayBuffer (example_library no_vault) 3 20 1 1 42))
     ''smac'' ''3m'' ''Good'' ''datasets''
   = (Inr False, constructed (FlashbaxReplayBuffer (example_library no_vault) 3 20 1 1 42))"
proof -
  have h: "Vault_read (example_library no_vault) (''smac'' @ ''/'' @ ''3m'' @ ''.vlt'')
             ''Good'' ''datasets'' = Inl ValueError"
    by (simp add: example_library_def flashbax_def no_vault_def)
  show ?thesis using populate_load_failure [OF h] by simp
qed

text \<open>
  C1 as stated fails twice. A load that raises something other than \<^verbatim>\<open>ValueError\<close> does
  not return \<^verbatim>\<open>False\<close>: the exception propagates. And a call can return \<^verbatim>\<open>False\<close>
  after it has changed the facade: the snapshot of two timesteps loads, the state and
  \<^verbatim>\<open>max_size\<close> are assigned, and then the factory refuses a window of 3 on a time axis
  of 2 with the \<^verbatim>\<open>ValueError\<close> that the handler turns into \<^verbatim>\<open>False\<close>.
\<close>

theorem populate_failure_counterexample:
  "fst (populate_from_vault (example_library unreadable_vault)
     (constructed (FlashbaxReplayBuffer (example_library unreadable_vault) 3 20 1 1 42))
     ''smac'' ''3m'' ''Good'' ''datasets'') = Inl OSError \<and>
   fst (populate_from_vault checked_library
     (constructed (FlashbaxReplayBuffer checked_library 3 20 1 1 42))
     ''smac'' ''3m'' ''Good'' ''datasets'') = Inr False \<and>
   max_size (constructed (FlashbaxReplayBuffer checked_library 3 20 1 1 42)) = 20 \<and>
   max_size (snd (populate_from_vault checked_library
     (constructed (FlashbaxReplayBuffer checked_library 3 20 1 1 42))
     ''smac'' ''3m'' ''Good'' ''datasets'')) = 2 \<and>
   buffer_state (constructed (FlashbaxReplayBuffer checked_library 3 20 1 1 42)) = None \<and>
   buffer_state (snd (populate_from_vault checked_library
     (constructed (FlashbaxReplayBuffer checked_library 3 20 1 1 42))
     ''smac'' ''3m'' ''Good'' ''datasets'')) = Some stored_two"
  by (simp add: populate_from_vault_def except_ValueError_def example_library_def flashbax_def
      unreadable_vault_def checked_library_def checked_factory_def two_step_vault_def
      FlashbaxReplayBuffer_def fbx_make_trajectory_buffer_def constructed_def jit_def
      stored_two_def)

text \<open>
  C9. Whatever a call of \<^verbatim>\<open>populate_from_vault\<close> does, whether it returns \<^verbatim>\<open>True\<close>,
  returns \<^verbatim>\<open>False\<close> or raises, the attributes \<^verbatim>\<open>_sequence_length\<close> and
  \<^verbatim>\<open>_batch_size\<close> are the same after it as before it.
\<close>

theorem populate_keeps_configuration:
  "sequence_length (snd (populate_from_vault L fa env_name scenario_name dataset_name rel_dir))
     = sequence_length fa \<and>
   batch_size (snd (populate_from_vault L fa env_name scenario_name dataset_name rel_dir))
     = batch_size fa"
  by (simp add: populate_from_vault_def Let_def except_ValueError_def split: sum.splits)

text \<open>
  C2. When \<^verbatim>\<open>populate_from_vault\<close> returns \<^verbatim>\<open>True\<close>, the state it holds is the one
  read from the vault, \<^verbatim>\<open>_max_size\<close> is that state's \<^verbatim>\<open>current_index\<close>, the buffer is
  the one the factory builds for the batch size and the window length of the facade, period
  1 and the new \<^verbatim>\<open>_max_size\<close>, and the add and sample functions are those of that buffer.
\<close>

theorem populate_success_rebuilds:
  assumes "fst (populate_from_vault L fa env_name scenario_name dataset_name rel_dir) = Inr True"
    and "fa' = snd (populate_from_vault L fa env_name scenario_name dataset_name rel_dir)"
  shows "map_sum id Some (Vault_read L (env_name @ ''/'' @ scenario_name @ ''.vlt'') dataset_name rel_dir)
           = Inr (buffer_state fa') \<and>
         map_option current_index (buffer_state fa') = Some (max_size fa') \<and>
         make_trajectory_buffer L 1 (batch_size fa) (sequence_length fa) 1 1 (max_size fa')
           = Inr (replay_buffer fa') \<and>
         buffer_sample_fn fa' = jit (sample (replay_buffer fa')) \<and>
         buffer_add_fn fa' = jit (add (replay_buffer fa'))"
  using assms
  by (auto simp add: populate_from_vault_def Let_def except_ValueError_def
      split: sum.splits if_splits)

theorem populate_success_rebuilds_witness:
  "fst (populate_from_vault (example_library two_step_vault)
          (constructed (FlashbaxReplayBuffer (example_library two_step_vault) 2 20 1 1 42))
          ''smac'' ''3m'' ''Good'' ''datasets'') = Inr True \<and>
   map_option current_index (buffer_state (snd (populate_from_vault (example_library two_step_vault)
          (constructed (FlashbaxReplayBuffer (example_library two_step_vault) 2 20 1 1 42))
          ''smac'' ''3m'' ''Good'' ''datasets'')))
     = Some (max_size (snd (populate_from_vault (example_library two_step_vault)
          (constructed (FlashbaxReplayBuffer (example_library two_step_vault) 2 20 1 1 42))
          ''smac'' ''3m'' ''Good'' ''datasets'')))"
proof -
  have h: "fst (populate_from_vault (example_library two_step_vault)
          (constructed (FlashbaxReplayBuffer (example_library two_step_vault) 2 20 1 1 42))
          ''smac'' ''3m'' ''Good'' ''datasets'') = Inr True"
    by (simp add: populate_from_vault_def except_ValueError_def example_library_def flashbax_def
      two_step_vault_def FlashbaxReplayBuffer_def fbx_make_trajectory_buffer_def constructed_def
      jit_def stored_two_def)
  from populate_success_rebuilds [OF h refl] have
    "map_option current_index (buffer_state (snd (populate_from_vault (example_library two_step_vault)
          (constructed (FlashbaxReplayBuffer (example_library two_step_vault) 2 20 1 1 42))
          ''smac'' ''3m'' ''Good'' ''datasets'')))
     = Some (max_size (snd (populate_from_vault (example_library two_step_vault)
          (constructed (FlashbaxReplayBuffer (example_library two_step_vault) 2 20 1 1 42))
          ''smac'' ''3m'' ''Good'' ''datasets'')))"
    by (rule conjunct1 [OF conjunct2])
  with h show ?thesis by (rule conjI)
qed

section \<open>The generator key\<close>







section \<open>Determinism\<close>

lemma step_same_generator:
  assumes "same_generator L1 L2" "\<not> is_populate c"
  shows "step L1 fa c = step L2 fa c"
  using assms
  by (cases c) (simp_all add: same_generator_def facade_sample_def sample_key_def)

lemma run_same_generator:
  assumes "same_generator L1 L2" "\<forall>c\<in>set calls. \<not> is_populate c"
  shows "run L1 fa calls = run L2 fa calls"
  using assms(2)
proof (induction calls arbitrary: fa)
  case Nil
  then show ?case by simp
next
  case (Cons c cs)
  then have s: "step L1 fa c = step L2 fa c"
    using assms(1) by (simp add: step_same_generator)
  show ?case using Cons by (simp add: s split: prod.splits)
qed

lemma constructed_flashbax:
  "FlashbaxReplayBuffer (flashbax bits key_of split vault) sl ms bs sp seed =
     Inr (constructed (FlashbaxReplayBuffer (flashbax bits key_of split vault) sl ms bs sp seed))"
  by (simp add: FlashbaxReplayBuffer_def flashbax_def fbx_make_trajectory_buffer_def
      constructed_def)

lemma facade_add_add_to:
  assumes "buffer_add_fn fa = add (replay_buffer fa)"
  shows "snd (facade_add fa t)
           = fa\<lparr>buffer_state := add_to (replay_buffer fa) (buffer_state fa) t\<rparr>"
proof -
  define s where
    "s = (case buffer_state fa of None \<Rightarrow> init (replay_buffer fa) t | Some s0 \<Rightarrow> s0)"
  have l: "facade_add fa t =
             (case add (replay_buffer fa) s (add_dims t) of
                Inl e \<Rightarrow> (Inl e, fa\<lparr>buffer_state := Some s\<rparr>)
              | Inr s' \<Rightarrow> (Inr (), fa\<lparr>buffer_state := Some s'\<rparr>))"
    using assms by (simp add: facade_add_def s_def Let_def split: sum.splits)
  have r: "add_to (replay_buffer fa) (buffer_state fa) t =
             (case add (replay_buffer fa) s (add_dims t) of
                Inl e \<Rightarrow> Some s | Inr s' \<Rightarrow> Some s')"
    by (simp add: add_to_def s_def Let_def split: sum.splits)
  show ?thesis unfolding l r by (cases "add (replay_buffer fa) s (add_dims t)") simp_all
qed

lemma run_expected_samples:
  assumes "replay_buffer fa = b" "buffer_add_fn fa = add b" "buffer_sample_fn fa = sample b"
    "buffer_state fa = foldl (add_to b) None added" "rng_key fa = nth_key L seed n"
    "\<forall>c\<in>set calls. \<not> is_populate c"
  shows "sampled calls (fst (run L fa calls)) = expected_samples L b seed added n calls"
  using assms
proof (induction calls arbitrary: fa added n)
  case Nil
  then show ?case by simp
next
  case (Cons c cs)
  show ?case
  proof (cases c)
    case (Add t)
    let ?fa' = "snd (facade_add fa t)"
    have fa': "?fa' = fa\<lparr>buffer_state := add_to b (buffer_state fa) t\<rparr>"
      using facade_add_add_to [of fa t] Cons.prems(1,2) by simp
    have "sampled cs (fst (run L ?fa' cs)) = expected_samples L b seed (added @ [t]) n cs"
    proof (rule Cons.IH)
      show "replay_buffer ?fa' = b" using Cons.prems(1) by (simp add: fa')
      show "buffer_add_fn ?fa' = add b" using Cons.prems(2) by (simp add: fa')
      show "buffer_sample_fn ?fa' = sample b" using Cons.prems(3) by (simp add: fa')
      show "buffer_state ?fa' = foldl (add_to b) None (added @ [t])"
        using Cons.prems(4) by (simp add: fa')
      show "rng_key ?fa' = nth_key L seed n" using Cons.prems(5) by (simp add: fa')
      show "\<forall>c\<in>set cs. \<not> is_populate c" using Cons.prems(6) by simp
    qed
    then show ?thesis using Add
      by (cases "facade_add fa t") (auto split: sum.splits prod.splits)
  next
    case Sample
    let ?fa' = "snd (facade_sample L fa)"
    have fa': "?fa' = fa\<lparr>rng_key := fst (random_split L (rng_key fa))\<rparr>"
      by (simp add: facade_sample_def Let_def)
    have out: "fst (facade_sample L fa)
                 = sample b (foldl (add_to b) None added)
                     (snd (random_split L (nth_key L seed n)))"
      using Cons.prems(3,4,5) by (simp add: facade_sample_def Let_def sample_key_def)
    have "sampled cs (fst (run L ?fa' cs)) = expected_samples L b seed added (Suc n) cs"
    proof (rule Cons.IH)
      show "replay_buffer ?fa' = b" using Cons.prems(1) by (simp add: fa')
      show "buffer_add_fn ?fa' = add b" using Cons.prems(2) by (simp add: fa')
      show "buffer_sample_fn ?fa' = sample b" using Cons.prems(3) by (simp add: fa')
      show "buffer_state ?fa' = foldl (add_to b) None added"
        using Cons.prems(4) by (simp add: fa')
      show "rng_key ?fa' = nth_key L seed (Suc n)"
        using Cons.prems(5) by (simp add: fa' nth_key_def)
      show "\<forall>c\<in>set cs. \<not> is_populate c" using Cons.prems(6) by simp
    qed
    then show ?thesis using Sample out
      by (cases "facade_sample L fa") (auto split: sum.splits prod.splits)
  next
    case (Populate x1 x2 x3 x4)
    then show ?thesis using Cons.prems(6) by simp
  qed
qed

text \<open>
  C4. Two facades constructed with the same arguments and the same seed, each in its own
  run (the runs share the generator and the factory and may differ in what the vault
  directory holds), and driven by the same history of add and sample calls, return the same
  outcome at every \<^verbatim>\<open>sample\<close> call; and that outcome is the one told from the seed and
  the history alone: what the sampler returns for the store that the adds made so far leave
  and for the second half of the split of the seed's key advanced once per earlier sample
  call.
\<close>

theorem sampling_deterministic:
  assumes "same_generator L1 L2"
    and "FlashbaxReplayBuffer L1 sl ms bs sp seed = Inr fa1"
    and "FlashbaxReplayBuffer L2 sl ms bs sp seed = Inr fa2"
    and "\<forall>c\<in>set calls. \<not> is_populate c"
  shows "sampled calls (fst (run L1 fa1 calls)) = sampled calls (fst (run L2 fa2 calls)) \<and>
         sampled calls (fst (run L1 fa1 calls))
           = expected_samples L1 (replay_buffer fa1) seed [] 0 calls"
proof -
  have "FlashbaxReplayBuffer L1 sl ms bs sp seed = FlashbaxReplayBuffer L2 sl ms bs sp seed"
  proof -
    have "make_trajectory_buffer L1 = make_trajectory_buffer L2" "PRNGKey L1 = PRNGKey L2"
      using assms(1) by (simp_all add: same_generator_def)
    then show ?thesis by (simp add: FlashbaxReplayBuffer_def split: sum.splits)
  qed
  then have "fa1 = fa2" using assms(2,3) by simp
  then have two: "sampled calls (fst (run L1 fa1 calls)) = sampled calls (fst (run L2 fa2 calls))"
    using run_same_generator [OF assms(1,4)] by simp
  have f: "buffer_add_fn fa1 = add (replay_buffer fa1)"
    "buffer_sample_fn fa1 = sample (replay_buffer fa1)"
    "buffer_state fa1 = foldl (add_to (replay_buffer fa1)) None []"
    "rng_key fa1 = nth_key L1 seed 0"
    using assms(2)
    by (auto simp add: FlashbaxReplayBuffer_def jit_def nth_key_def split: sum.splits)
  have "sampled calls (fst (run L1 fa1 calls))
          = expected_samples L1 (replay_buffer fa1) seed [] 0 calls"
    using refl f assms(4) by (rule run_expected_samples)
  with two show ?thesis by (rule conjI)
qed

theorem sampling_deterministic_witness:
  "sampled [Add (reward_step 0), Add (reward_step 1), Sample, Add (reward_step 2), Sample]
     (fst (run (example_library no_vault)
        (constructed (FlashbaxReplayBuffer (example_library no_vault) 2 5 1 1 42))
        [Add (reward_step 0), Add (reward_step 1), Sample, Add (reward_step 2), Sample]))
   = sampled [Add (reward_step 0), Add (reward_step 1), Sample, Add (reward_step 2), Sample]
     (fst (run (example_library two_step_vault)
        (constructed (FlashbaxReplayBuffer (example_library two_step_vault) 2 5 1 1 42))
        [Add (reward_step 0), Add (reward_step 1), Sample, Add (reward_step 2), Sample]))"
proof -
  have g: "same_generator (flashbax counter_bits seed_key tree_split no_vault)
             (flashbax counter_bits seed_key tree_split two_step_vault)"
    by (simp add: same_generator_def flashbax_def)
  have h: "\<forall>c\<in>set [Add (reward_step 0), Add (reward_step 1), Sample, Add (reward_step 2), Sample].
             \<not> is_populate c"
    by simp
  show ?thesis
    unfolding example_library_def
    by (rule sampling_deterministic [OF g constructed_flashbax constructed_flashbax h,
          THEN conjunct1])
qed



section \<open>The ring\<close>

lemma rotate_update:
  assumes "c < length xs"
  shows "rotate ((c + 1) mod length xs) (xs[c := t]) = tl (rotate c xs) @ [t]"
proof -
  have d: "drop c xs = xs ! c # drop (Suc c) xs"
    using assms by (simp add: Cons_nth_drop_Suc)
  have r: "rotate c xs = drop c xs @ take c xs"
    using assms by (simp add: rotate_drop_take)
  have u: "xs[c := t] = take c xs @ t # drop (Suc c) xs"
    using assms by (simp add: upd_conv_take_nth_drop)
  show ?thesis
  proof (cases "c + 1 < length xs")
    case True
    have "rotate (c + 1) (xs[c := t]) = drop (c + 1) (xs[c := t]) @ take (c + 1) (xs[c := t])"
      using True by (simp add: rotate_drop_take)
    also have "\<dots> = drop (Suc c) xs @ take c xs @ [t]"
      using assms by (simp add: take_Suc_conv_app_nth)
    finally show ?thesis using True r d by simp
  next
    case False
    then have c: "Suc c = length xs" using assms by simp
    then have "drop (Suc c) xs = []" by simp
    then show ?thesis using c r d u by simp
  qed
qed

lemma shape_empty_like: "shape (empty_like t) = shape t"
  by (simp add: shape_def empty_like_def zeros_like_def)

lemma shape_jnp_array: "shape (map_structure jnp_array t) = shape t"
  by (simp add: shape_def map_structure_def jnp_array_def)

lemma empty_like_jnp_array: "empty_like (map_structure jnp_array t) = empty_like t"
  by (simp add: empty_like_def map_structure_def jnp_array_def zeros_like_def)

lemma jnp_array_int32_range:
  assumes "int32_range x"
  shows "jnp_array x = x"
proof -
  have "sint (word_of_int v :: 32 word) = v" if "v \<in> set x" for v
  proof -
    have "- (2 ^ 31) \<le> v" "v < 2 ^ 31"
      using assms that by (auto simp add: int32_range_def list_all_iff)
    then show ?thesis by (simp add: sint_sbintrunc' signed_take_bit_int_eq_self)
  qed
  then show ?thesis by (simp add: jnp_array_def map_idI)
qed

lemma jnp_array_fits_int32:
  assumes "fits_int32 t"
  shows "map_structure jnp_array t = t"
  using assms by (simp add: fits_int32_def map_structure_def jnp_array_int32_range)

lemma fits_int32_reward_step:
  "- (2 ^ 31) \<le> r \<Longrightarrow> r < 2 ^ 31 \<Longrightarrow> fits_int32 (reward_step r)"
  by (simp add: fits_int32_def int32_range_def reward_step_def)

lemma hd_jnp_array:
  "ts \<noteq> [] \<Longrightarrow> empty_like (hd (map (map_structure jnp_array) ts)) = empty_like (hd ts)"
  by (cases ts) (simp_all add: empty_like_jnp_array)

lemma list_all_update:
  "list_all P xs \<Longrightarrow> P t \<Longrightarrow> list_all P (xs[i := t])"
  by (auto simp add: list_all_iff dest: set_update_subset_insert [THEN subsetD])

lemma store_after_first:
  assumes "0 < cap"
  shows "\<exists>s'. tb_add (tb_init cap t) [[map_structure jnp_array t]] = Inr s' \<and>
              store_after cap [map_structure jnp_array t] s'"
proof -
  let ?s = "tb_init cap t"
  let ?u = "map_structure jnp_array t"
  have e: "experience ?s = replicate cap (empty_like t)" by (simp add: tb_init_def)
  have ok: "\<not> (experience ?s = [] \<or> \<not> list_all (\<lambda>e. shape e = shape ?u) (experience ?s))"
    using assms by (simp add: e list_all_iff shape_empty_like shape_jnp_array)
  define s' where "s' = \<lparr> experience = (experience ?s)[current_index ?s mod length (experience ?s) := ?u],
                  current_index = (current_index ?s + 1) mod length (experience ?s),
                  is_full = (is_full ?s \<or> length (experience ?s) \<le> current_index ?s + 1) \<rparr>"
  have a: "tb_add ?s [[?u]] = Inr s'" using ok unfolding s'_def by simp
  have upd: "(replicate cap (empty_like t))[0 := ?u] = ?u # replicate (cap - 1) (empty_like t)"
    using assms by (cases cap) simp_all
  have "store_after cap [?u] s'"
  proof (cases "cap = 1")
    case True
    then show ?thesis
      by (simp add: store_after_def s'_def tb_init_def)
  next
    case False
    then have "1 < cap" using assms by simp
    then show ?thesis using upd
      by (simp add: store_after_def s'_def tb_init_def list_all_iff shape_empty_like
          shape_jnp_array empty_like_jnp_array)
  qed
  with a show ?thesis by blast
qed

lemma store_after_step:
  assumes inv: "store_after cap ts s" and ne: "ts \<noteq> []" and cap: "0 < cap"
    and sh: "shape t = shape (hd ts)"
  shows "\<exists>s'. tb_add s [[t]] = Inr s' \<and> store_after cap (ts @ [t]) s'"
proof -
  let ?n = "length ts"
  have len: "length (experience s) = cap" and cur: "current_index s = ?n mod cap"
    and full: "is_full s = (cap \<le> ?n)"
    and shp: "list_all (\<lambda>e. shape e = shape (hd ts)) (experience s)"
    using inv by (simp_all add: store_after_def)
  have curlt: "current_index s < cap" using cur cap by simp
  have ok: "\<not> (experience s = [] \<or> \<not> list_all (\<lambda>e. shape e = shape t) (experience s))"
    using len cap shp sh by auto
  define s' where "s' = \<lparr> experience = (experience s)[current_index s mod length (experience s) := t],
                  current_index = (current_index s + 1) mod length (experience s),
                  is_full = (is_full s \<or> length (experience s) \<le> current_index s + 1) \<rparr>"
  have a: "tb_add s [[t]] = Inr s'" using ok unfolding s'_def by simp
  have e': "experience s' = (experience s)[?n mod cap := t]"
    using curlt by (simp add: s'_def len cur)
  have c': "current_index s' = (?n + 1) mod cap"
    by (simp add: s'_def len cur mod_Suc_eq)
  have hd': "hd (ts @ [t]) = hd ts" using ne by simp
  have shp': "list_all (\<lambda>e. shape e = shape (hd (ts @ [t]))) (experience s')"
    unfolding hd' e' using shp sh by (intro list_all_update) simp_all
  have l': "length (experience s') = cap" by (simp add: e' len)
  show ?thesis
  proof (cases "?n < cap")
    case True
    then have ex: "experience s = ts @ replicate (cap - ?n) (empty_like (hd ts))"
      using inv by (simp add: store_after_def)
    have nm: "?n mod cap = ?n" using True by simp
    have rp: "replicate (cap - ?n) (empty_like (hd ts)) =
              empty_like (hd ts) # replicate (cap - ?n - 1) (empty_like (hd ts))"
      using True by (cases "cap - ?n") simp_all
    have ex': "experience s' = (ts @ [t]) @ replicate (cap - (?n + 1)) (empty_like (hd ts))"
      unfolding e' nm ex by (subst rp) (simp add: list_update_append)
    have f': "is_full s' = (cap \<le> ?n + 1)"
      using True by (simp add: s'_def len cur full)
    have "store_after cap (ts @ [t]) s'"
    proof (cases "?n + 1 < cap")
      case True
      then show ?thesis using l' c' f' shp' ex' hd'
        by (simp add: store_after_def)
    next
      case False
      then have eq: "?n + 1 = cap" using \<open>?n < cap\<close> by simp
      then show ?thesis using l' c' f' shp' ex' hd'
        by (simp add: store_after_def)
    qed
    with a show ?thesis by blast
  next
    case False
    then have rot: "rotate (?n mod cap) (experience s) = drop (?n - cap) ts"
      using inv by (simp add: store_after_def)
    have lt: "?n mod cap < length (experience s)" using cap len by simp
    have "rotate ((?n mod cap + 1) mod length (experience s)) ((experience s)[?n mod cap := t])
            = tl (rotate (?n mod cap) (experience s)) @ [t]"
      using lt by (rule rotate_update)
    then have r': "rotate ((?n + 1) mod cap) (experience s') = drop (?n + 1 - cap) ts @ [t]"
      using False by (simp add: e' len rot mod_Suc_eq tl_drop drop_Suc Suc_diff_le)
    have f': "is_full s' = (cap \<le> ?n + 1)"
      using False by (simp add: s'_def len cur full)
    have "store_after cap (ts @ [t]) s'"
      using False cap l' c' f' shp' r' hd' by (simp add: store_after_def)
    with a show ?thesis by blast
  qed
qed

lemma facade_add_Some:
  assumes "buffer_state fa = Some s" "buffer_add_fn fa = tb_add"
    "tb_add s [[map_structure jnp_array t]] = Inr s'"
  shows "facade_add fa t = (Inr (), fa\<lparr>buffer_state := Some s'\<rparr>)"
  using assms by (simp add: facade_add_def add_dims_def del: tb_add.simps)

lemma add_all_store_after:
  assumes "buffer_state fa = Some s" "buffer_add_fn fa = tb_add" "store_after cap ts s"
    "ts \<noteq> []" "0 < cap" "\<forall>t\<in>set us. shape t = shape (hd ts)"
  shows "\<exists>s'. add_all fa us = (Inr (), fa\<lparr>buffer_state := Some s'\<rparr>) \<and>
              store_after cap (ts @ map (map_structure jnp_array) us) s'"
  using assms
proof (induction us arbitrary: fa s ts)
  case Nil
  then show ?case by (intro exI [of _ s]) simp
next
  case (Cons u us)
  let ?u = "map_structure jnp_array u"
  have "shape ?u = shape (hd ts)" using Cons.prems(6) by (simp add: shape_jnp_array)
  from store_after_step [OF Cons.prems(3) Cons.prems(4) Cons.prems(5) this]
  obtain s1 where s1: "tb_add s [[?u]] = Inr s1" "store_after cap (ts @ [?u]) s1" by auto
  let ?fa1 = "fa\<lparr>buffer_state := Some s1\<rparr>"
  have st: "facade_add fa u = (Inr (), ?fa1)"
    using Cons.prems(1,2) s1(1) by (rule facade_add_Some)
  have "\<exists>s'. add_all ?fa1 us = (Inr (), ?fa1\<lparr>buffer_state := Some s'\<rparr>) \<and>
              store_after cap ((ts @ [?u]) @ map (map_structure jnp_array) us) s'"
  proof (rule Cons.IH)
    show "buffer_state ?fa1 = Some s1" by simp
    show "buffer_add_fn ?fa1 = tb_add" using Cons.prems(2) by simp
    show "store_after cap (ts @ [?u]) s1" by (rule s1(2))
    show "ts @ [?u] \<noteq> []" by simp
    show "0 < cap" by (rule Cons.prems(5))
    show "\<forall>t\<in>set us. shape t = shape (hd (ts @ [?u]))"
      using Cons.prems(4,6) by simp
  qed
  then show ?case using st by simp
qed

lemma fresh_facade:
  assumes "FlashbaxReplayBuffer (flashbax bits key_of split vault) sl ms bs sp seed = Inr fa0"
  shows "buffer_state fa0 = None" "buffer_add_fn fa0 = tb_add"
    "buffer_sample_fn fa0 = tb_sample bits bs sl sp" "init (replay_buffer fa0) = tb_init ms"
    "rng_key fa0 = key_of seed" "sequence_length fa0 = sl" "batch_size fa0 = bs" "max_size fa0 = ms"
  using assms
  by (auto simp add: FlashbaxReplayBuffer_def flashbax_def fbx_make_trajectory_buffer_def jit_def)

lemma add_all_fresh:
  assumes c: "FlashbaxReplayBuffer (flashbax bits key_of split vault) sl ms bs sp seed = Inr fa0"
    and ne: "ts \<noteq> []" and cap: "0 < ms" and sh: "\<forall>t\<in>set ts. shape t = shape (hd ts)"
  shows "\<exists>s. add_all fa0 ts = (Inr (), fa0\<lparr>buffer_state := Some s\<rparr>) \<and>
             store_after ms (map (map_structure jnp_array) ts) s"
proof -
  obtain t us where ts: "ts = t # us" using ne by (cases ts) auto
  let ?t = "map_structure jnp_array t"
  note f = fresh_facade [OF c]
  obtain s1 where s1: "tb_add (tb_init ms t) [[?t]] = Inr s1" "store_after ms [?t] s1"
    using store_after_first [OF cap] by blast
  let ?fa1 = "fa0\<lparr>buffer_state := Some s1\<rparr>"
  have st: "facade_add fa0 t = (Inr (), ?fa1)"
    using f(1,2,4) s1(1) by (simp add: facade_add_def add_dims_def del: tb_add.simps)
  have "\<exists>s'. add_all ?fa1 us = (Inr (), ?fa1\<lparr>buffer_state := Some s'\<rparr>) \<and>
              store_after ms ([?t] @ map (map_structure jnp_array) us) s'"
  proof (rule add_all_store_after)
    show "buffer_state ?fa1 = Some s1" by simp
    show "buffer_add_fn ?fa1 = tb_add" using f(2) by simp
    show "store_after ms [?t] s1" by (rule s1(2))
    show "[?t] \<noteq> []" by simp
    show "0 < ms" by (rule cap)
    show "\<forall>x\<in>set us. shape x = shape (hd [?t])" using sh ts by (simp add: shape_jnp_array)
  qed
  then show ?thesis using st ts by simp
qed

lemma store_after_live:
  assumes "store_after cap ts s"
  shows "live s = drop (length ts - cap) ts"
proof (cases "length ts < cap")
  case True
  then show ?thesis using assms by (simp add: store_after_def live_def)
next
  case False
  then show ?thesis using assms by (simp add: store_after_def live_def)
qed

lemma store_after_set:
  assumes "store_after cap ts s" "cap \<le> length ts"
  shows "set (experience s) = set (drop (length ts - cap) ts)"
proof -
  have "rotate (length ts mod cap) (experience s) = drop (length ts - cap) ts"
    using assms by (simp add: store_after_def)
  then have "set (rotate (length ts mod cap) (experience s)) = set (drop (length ts - cap) ts)"
    by simp
  then show ?thesis by simp
qed

lemma shape_reward_step: "shape (reward_step r) = [1, 1, 1, 1, 1, 0]"
  by (simp add: shape_def reward_step_def)

text \<open>
  C5. After more adds than the capacity, all of one shape, every add has returned, the
  live timesteps from oldest to newest are exactly the last \<^verbatim>\<open>max_size\<close> timesteps added
  (each as \<^verbatim>\<open>jnp.array\<close> converted it on its way into the store), in the order of the
  calls, the slots of the store hold these and nothing else, and the store still has
  \<^verbatim>\<open>max_size\<close> slots. With \<^verbatim>\<open>max_size = 5\<close> and rewards 0 to 6 the
  rewards 2 to 6 remain.
\<close>

theorem ring_keeps_most_recent:
  assumes "FlashbaxReplayBuffer (flashbax bits key_of split vault) sl ms bs sp seed = Inr fa0"
    and "\<forall>t\<in>set ts. shape t = shape (hd ts)"
    and "0 < ms" and "ms < length ts"
    and "fa = snd (add_all fa0 ts)"
  shows "fst (add_all fa0 ts) = Inr () \<and>
         retrievable fa = drop (length ts - ms) (map (map_structure jnp_array) ts) \<and>
         length (retrievable fa) = ms \<and>
         map_option (\<lambda>s. set (experience s)) (buffer_state fa)
           = Some (set (drop (length ts - ms) (map (map_structure jnp_array) ts))) \<and>
         map_option (\<lambda>s. length (experience s)) (buffer_state fa) = Some ms"
proof -
  let ?cs = "map (map_structure jnp_array) ts"
  have ne: "ts \<noteq> []" using assms(4) by auto
  from add_all_fresh [OF assms(1) ne assms(3) assms(2)] obtain s where
    s: "add_all fa0 ts = (Inr (), fa0\<lparr>buffer_state := Some s\<rparr>)" "store_after ms ?cs s"
    by blast
  have fa: "buffer_state fa = Some s" using s(1) assms(5) by simp
  have l: "live s = drop (length ts - ms) ?cs"
    using store_after_live [OF s(2)] by simp
  have st: "set (experience s) = set (drop (length ts - ms) ?cs)"
    using store_after_set [OF s(2)] assms(4) by simp
  have len: "length (experience s) = ms" using s(2) by (simp add: store_after_def)
  show ?thesis using s(1) fa l st len assms(4) by (simp add: retrievable_def)
qed

theorem ring_keeps_most_recent_witness:
  "retrievable (snd (add_all
       (constructed (FlashbaxReplayBuffer (example_library no_vault) 3 5 1 1 42))
       (map reward_step [0, 1, 2, 3, 4, 5, 6])))
     = map reward_step [2, 3, 4, 5, 6]"
proof -
  have sh: "\<forall>t\<in>set (map reward_step [0, 1, 2, 3, 4, 5, 6]).
              shape t = shape (hd (map reward_step [0, 1, 2, 3, 4, 5, 6]))"
    by (simp add: shape_reward_step)
  have "retrievable (snd (add_all
       (constructed (FlashbaxReplayBuffer (flashbax counter_bits seed_key tree_split no_vault) 3 5 1 1 42))
       (map reward_step [0, 1, 2, 3, 4, 5, 6])))
     = drop (length (map reward_step [0, 1, 2, 3, 4, 5, 6]) - 5)
         (map (map_structure jnp_array) (map reward_step [0, 1, 2, 3, 4, 5, 6]))"
    using ring_keeps_most_recent [where ms = 5, OF constructed_flashbax sh _ _ refl]
    by simp
  then show ?thesis
    by (simp add: example_library_def jnp_array_fits_int32 fits_int32_reward_step)
qed

section \<open>Sampling\<close>

lemma store_after_prefix:
  assumes "store_after cap ts s" "ts \<noteq> []" "length ts \<le> cap"
  shows "experience s = ts @ replicate (cap - length ts) (empty_like (hd ts))"
    and "head s = 0" and "occupancy s = length ts" and "length (experience s) = cap"
proof -
  have cap: "0 < cap" using assms(2,3) by (cases ts) auto
  show e: "experience s = ts @ replicate (cap - length ts) (empty_like (hd ts))"
  proof (cases "length ts < cap")
    case True
    then show ?thesis using assms(1) by (simp add: store_after_def)
  next
    case False
    then have eq: "length ts = cap" using assms(3) by simp
    then show ?thesis using assms(1) by (simp add: store_after_def)
  qed
  show "head s = 0" using assms(1,3) cap
    by (cases "length ts < cap") (auto simp add: store_after_def head_def)
  show "occupancy s = length ts" using assms(1,3)
    by (cases "length ts < cap") (auto simp add: store_after_def occupancy_def)
  show "length (experience s) = cap" using assms(1) by (simp add: store_after_def)
qed

lemma eligible_offsets_iff:
  "off \<in> set (eligible_offsets sl p s) \<longleftrightarrow> p dvd off \<and> off + sl \<le> occupancy s"
  by (auto simp add: eligible_offsets_def simp del: upt_Suc)

lemma eligible_offsets_empty:
  "occupancy s < sl \<Longrightarrow> eligible_offsets sl p s = []"
  by (simp add: eligible_offsets_def filter_empty_conv)

lemma length_choose_offsets: "length (choose_offsets bits key n cands) = n"
  by (simp add: choose_offsets_def)

lemma choose_offsets_member:
  assumes "cands \<noteq> []" "off \<in> set (choose_offsets bits key n cands)"
  shows "off \<in> set cands"
  using assms by (auto simp add: choose_offsets_def)

lemma choose_offsets_none: "choose_offsets bits key n [] = replicate n 0"
  by (simp add: choose_offsets_def map_replicate_const)

lemma sample_offsets_valid:
  assumes "sl \<le> occupancy s" "off \<in> set (sample_offsets bits bs sl p s key)"
  shows "p dvd off \<and> off + sl \<le> occupancy s"
proof -
  have "0 \<in> set (eligible_offsets sl p s)"
    using assms(1) by (simp add: eligible_offsets_iff)
  then have "eligible_offsets sl p s \<noteq> []" by auto
  then have "off \<in> set (eligible_offsets sl p s)"
    using assms(2) unfolding sample_offsets_def by (rule choose_offsets_member)
  then show ?thesis by (simp add: eligible_offsets_iff)
qed

lemma window_nth:
  assumes "experience s = ts @ pad" "head s = 0" "i < sl" "off + i < length ts"
  shows "window s sl off ! i = ts ! (off + i)"
  using assms by (simp add: window_def nth_append)

lemma length_window: "length (window s sl off) = sl"
  by (simp add: window_def)

lemma window_slice:
  assumes "experience s = ts @ pad" "head s = 0" "off + sl \<le> length ts"
  shows "window s sl off = take sl (drop off ts)"
proof (rule nth_equalityI)
  show "length (window s sl off) = length (take sl (drop off ts))"
    using assms(3) by (simp add: length_window)
next
  fix i assume "i < length (window s sl off)"
  then have i: "i < sl" by (simp add: length_window)
  then have "off + i < length ts" using assms(3) by simp
  then show "window s sl off ! i = take sl (drop off ts) ! i"
    using window_nth [OF assms(1,2) i] i by simp
qed

lemma window_underfilled:
  assumes "experience s = ts @ replicate (cap - length ts) z" "head s = 0"
    "length ts \<le> sl" "sl \<le> cap" "length ts \<le> cap"
  shows "window s sl 0 = ts @ replicate (sl - length ts) z"
proof -
  have l: "length (experience s) = cap" using assms(1,5) by simp
  have "window s sl 0 = map (\<lambda>i. experience s ! i) [0..<sl]"
    using assms(2,4) l by (simp add: window_def)
  also have "\<dots> = take sl (experience s)"
    using assms(4) l by (intro nth_equalityI) simp_all
  also have "\<dots> = ts @ replicate (sl - length ts) z"
    using assms(3,4) by (simp add: assms(1) min_def)
  finally show ?thesis .
qed

lemma facade_sample_tb:
  assumes "buffer_sample_fn fa = tb_sample bits bs sl p" "buffer_state fa = Some s"
    "experience s \<noteq> []"
  shows "fst (facade_sample L fa) = Inr (map (window s sl) (drawn_offsets bits L bs sl p fa))"
  using assms by (simp add: facade_sample_def tb_sample_def drawn_offsets_def)

lemma facade_add_keeps_sampler:
  "buffer_sample_fn (snd (facade_add fa t)) = buffer_sample_fn fa"
  by (simp add: facade_add_def Let_def split: sum.splits)

lemma add_all_keeps_sampler:
  "buffer_sample_fn (snd (add_all fa ts)) = buffer_sample_fn fa"
proof (induction ts arbitrary: fa)
  case Nil
  then show ?case by simp
next
  case (Cons t ts)
  show ?case
  proof (cases "facade_add fa t")
    case (Pair r fa')
    then have "buffer_sample_fn fa' = buffer_sample_fn fa"
      using facade_add_keeps_sampler [of fa t] by simp
    then show ?thesis using Pair Cons.IH [of fa'] by (cases r) simp_all
  qed
qed




text \<open>
  C3 (as amended). After K adds of one shape, with K at least 1, at least
  \<^verbatim>\<open>sequence_length\<close> and below \<^verbatim>\<open>max_size\<close>, a \<^verbatim>\<open>sample\<close> call draws
  \<^verbatim>\<open>batch_size\<close> offsets, each with \<^verbatim>\<open>off + sequence_length\<close> at most K, and returns
  for each the slice of the added timesteps, as \<^verbatim>\<open>jnp.array\<close> converted them, that starts
  there. After 10 adds with
  \<^verbatim>\<open>sequence_length = 3\<close>, \<^verbatim>\<open>batch_size = 1\<close> and \<^verbatim>\<open>max_size = 20\<close> the offset drawn
  is one of 0 to 7.
\<close>

theorem sampled_windows_within_written:
  assumes "FlashbaxReplayBuffer (flashbax bits key_of split vault) sl ms bs sp seed = Inr fa0"
    and "\<forall>t\<in>set ts. shape t = shape (hd ts)"
    and "ts \<noteq> []" and "sl \<le> length ts" and "length ts < ms"
    and "fa = snd (add_all fa0 ts)"
    and "drawn = drawn_offsets bits (flashbax bits key_of split vault) bs sl sp fa"
  shows "length drawn = bs \<and>
         list_all (\<lambda>off. off + sl \<le> length ts) drawn \<and>
         fst (facade_sample (flashbax bits key_of split vault) fa)
           = Inr (map (\<lambda>off. take sl (drop off (map (map_structure jnp_array) ts))) drawn)"
proof -
  let ?L = "flashbax bits key_of split vault"
  let ?cs = "map (map_structure jnp_array) ts"
  have cne: "?cs \<noteq> []" using assms(3) by simp
  have cap: "0 < ms" using assms(5) by simp
  from add_all_fresh [OF assms(1) assms(3) cap assms(2)] obtain s where
    s: "add_all fa0 ts = (Inr (), fa0\<lparr>buffer_state := Some s\<rparr>)" "store_after ms ?cs s"
    by blast
  have fa: "fa = fa0\<lparr>buffer_state := Some s\<rparr>" using s(1) assms(6) by simp
  have le: "length ?cs \<le> ms" using assms(5) by simp
  note p = store_after_prefix [OF s(2) cne le]
  have smp: "buffer_sample_fn fa = tb_sample bits bs sl sp"
    using fresh_facade(3) [OF assms(1)] fa by simp
  have exn: "experience s \<noteq> []" using p(4) cap by auto
  have res: "fst (facade_sample ?L fa) = Inr (map (window s sl) drawn)"
    unfolding assms(7) using smp _ exn by (rule facade_sample_tb) (simp add: fa)
  have d: "drawn = sample_offsets bits bs sl sp s (sample_key ?L fa)"
    by (simp add: assms(7) drawn_offsets_def fa)
  have ld: "length drawn = bs"
    by (simp add: d sample_offsets_def length_choose_offsets)
  have v: "off + sl \<le> length ts" if "off \<in> set drawn" for off
    using sample_offsets_valid [of sl s off bits bs sp] that assms(4) p(3) d by simp
  have w: "map (window s sl) drawn = map (\<lambda>off. take sl (drop off ?cs)) drawn"
  proof (rule map_cong [OF refl])
    fix off assume "off \<in> set drawn"
    then have "off + sl \<le> length ?cs" using v by simp
    with p(1) p(2) show "window s sl off = take sl (drop off ?cs)" by (rule window_slice)
  qed
  show ?thesis using ld v res w by (simp add: list_all_iff)
qed

theorem sampled_windows_within_written_witness:
  "length (drawn_offsets counter_bits (example_library no_vault) 1 3 1
     (snd (add_all (constructed (FlashbaxReplayBuffer (example_library no_vault) 3 20 1 1 42))
        (map reward_step [0, 1, 2, 3, 4, 5, 6, 7, 8, 9])))) = 1 \<and>
   list_all (\<lambda>off. off + 3 \<le> 10)
     (drawn_offsets counter_bits (example_library no_vault) 1 3 1
     (snd (add_all (constructed (FlashbaxReplayBuffer (example_library no_vault) 3 20 1 1 42))
        (map reward_step [0, 1, 2, 3, 4, 5, 6, 7, 8, 9]))))"
proof -
  have sh: "\<forall>t\<in>set (map reward_step [0, 1, 2, 3, 4, 5, 6, 7, 8, 9]).
              shape t = shape (hd (map reward_step [0, 1, 2, 3, 4, 5, 6, 7, 8, 9]))"
    by (simp add: shape_reward_step)
  have ne: "map reward_step [0, 1, 2, 3, 4, 5, 6, 7, 8, 9] \<noteq> []" by simp
  have le: "3 \<le> length (map reward_step [0, 1, 2, 3, 4, 5, 6, 7, 8, 9])" by simp
  have lt: "length (map reward_step [0, 1, 2, 3, 4, 5, 6, 7, 8, 9]) < 20" by simp
  show ?thesis
    unfolding example_library_def
    using sampled_windows_within_written [OF constructed_flashbax sh ne le lt refl refl]
    by simp
qed

text \<open>
  C3 as stated, for every K below the capacity, fails when K is below the window length:
  after 2 adds a window of 3 is drawn at offset 0, and 0 + 3 exceeds 2; its last slot was
  never written.
\<close>

theorem window_counterexample:
  "drawn_offsets counter_bits (example_library no_vault) 1 3 1
     (snd (add_all (constructed (FlashbaxReplayBuffer (example_library no_vault) 3 20 1 1 42))
        [reward_step 0, reward_step 1])) = [0] \<and>
   fst (facade_sample (example_library no_vault)
     (snd (add_all (constructed (FlashbaxReplayBuffer (example_library no_vault) 3 20 1 1 42))
        [reward_step 0, reward_step 1])))
     = Inr [[reward_step 0, reward_step 1, empty_like (reward_step 0)]]"
  by code_simp

text \<open>
  C7 (as amended). \<^verbatim>\<open>sample\<close> checks nothing before it calls the sampler. On a facade
  that never saw an add the call fails on the missing state object, with an
  \<^verbatim>\<open>AttributeError\<close>. On a store that holds fewer timesteps than a window is long (and
  whose capacity is at least the window length) the call returns: every one of the
  \<^verbatim>\<open>batch_size\<close> windows starts at the oldest slot and consists of the written timesteps,
  as \<^verbatim>\<open>jnp.array\<close> converted them, followed by zero-filled slots that were never written.
\<close>

theorem sample_without_guard:
  assumes "FlashbaxReplayBuffer (flashbax bits key_of split vault) sl ms bs sp seed = Inr fa0"
    and "\<forall>t\<in>set ts. shape t = shape (hd ts)"
    and "length ts < sl" and "sl \<le> ms"
    and "fa = snd (add_all fa0 ts)"
  shows "fst (facade_sample (flashbax bits key_of split vault) fa) =
           (if ts = [] then Inl AttributeError
            else Inr (replicate bs (map (map_structure jnp_array) ts
                        @ replicate (sl - length ts) (empty_like (hd ts)))))"
proof (cases "ts = []")
  case True
  then have "fa = fa0" using assms(5) by simp
  then show ?thesis using True fresh_facade(1,3) [OF assms(1)]
    by (simp add: facade_sample_def tb_sample_def)
next
  case False
  let ?L = "flashbax bits key_of split vault"
  let ?cs = "map (map_structure jnp_array) ts"
  have cne: "?cs \<noteq> []" using False by simp
  have cap: "0 < ms" using assms(3,4) by simp
  from add_all_fresh [OF assms(1) False cap assms(2)] obtain s where
    s: "add_all fa0 ts = (Inr (), fa0\<lparr>buffer_state := Some s\<rparr>)" "store_after ms ?cs s"
    by blast
  have fa: "fa = fa0\<lparr>buffer_state := Some s\<rparr>" using s(1) assms(5) by simp
  have le: "length ?cs \<le> ms" using assms(3,4) by simp
  note p = store_after_prefix [OF s(2) cne le]
  have smp: "buffer_sample_fn fa = tb_sample bits bs sl sp"
    using fresh_facade(3) [OF assms(1)] fa by simp
  have exn: "experience s \<noteq> []" using p(4) cap by auto
  have res: "fst (facade_sample ?L fa)
               = Inr (map (window s sl) (drawn_offsets bits ?L bs sl sp fa))"
    using smp _ exn by (rule facade_sample_tb) (simp add: fa)
  have "eligible_offsets sl sp s = []"
    using assms(3) p(3) by (intro eligible_offsets_empty) simp
  then have d: "drawn_offsets bits ?L bs sl sp fa = replicate bs 0"
    by (simp add: drawn_offsets_def fa sample_offsets_def choose_offsets_none)
  have "window s sl 0 = ?cs @ replicate (sl - length ?cs) (empty_like (hd ?cs))"
    using p(1) p(2) _ assms(4) le by (rule window_underfilled) (use assms(3) in simp)
  then have w: "window s sl 0 = ?cs @ replicate (sl - length ts) (empty_like (hd ts))"
    using False by (simp add: hd_jnp_array)
  show ?thesis using False res d w by simp
qed

theorem sample_without_guard_witness:
  "fst (facade_sample (example_library no_vault)
     (snd (add_all (constructed (FlashbaxReplayBuffer (example_library no_vault) 3 20 2 1 42))
        [reward_step 5])))
   = Inr [[reward_step 5, empty_like (reward_step 5), empty_like (reward_step 5)],
          [reward_step 5, empty_like (reward_step 5), empty_like (reward_step 5)]]"
proof -
  have sh: "\<forall>t\<in>set [reward_step 5]. shape t = shape (hd [reward_step 5])" by simp
  have lt: "length [reward_step 5] < 3" by simp
  have le: "(3::nat) \<le> 20" by simp
  show ?thesis
    unfolding example_library_def
    using sample_without_guard [where bs = 2, OF constructed_flashbax sh lt le refl]
    by (simp add: numeral_2_eq_2 numeral_3_eq_3 jnp_array_fits_int32 fits_int32_reward_step)
qed

text \<open>
  C7 as stated fails: a \<^verbatim>\<open>sample\<close> before the first add ends in an
  \<^verbatim>\<open>AttributeError\<close>, which is no report of insufficient data, and a \<^verbatim>\<open>sample\<close> after
  one add, for windows of 3, returns a window whose second and third timestep are zero
  filling.
\<close>

theorem sample_counterexample:
  "fst (facade_sample (example_library no_vault)
     (constructed (FlashbaxReplayBuffer (example_library no_vault) 3 20 1 1 42)))
     = Inl AttributeError \<and>
   fst (facade_sample (example_library no_vault)
     (snd (add_all (constructed (FlashbaxReplayBuffer (example_library no_vault) 3 20 1 1 42))
        [reward_step 0])))
     = Inr [[reward_step 0, empty_like (reward_step 0), empty_like (reward_step 0)]]"
  by code_simp

text \<open>
  C8. The sampler of a constructed facade, and of the facade after any adds, is the one
  bound to the \<^verbatim>\<open>sample_period\<close> given to the constructor; after a
  \<^verbatim>\<open>populate_from_vault\<close> that returned \<^verbatim>\<open>True\<close> it is the one bound to period 1. A
  sampler bound to period \<^verbatim>\<open>p\<close> draws from the offsets that are multiples of \<^verbatim>\<open>p\<close>
  and whose window lies within the written data; with period 1 these are all offsets whose
  window lies within the written data.
\<close>

theorem period_of_sampler:
  "(FlashbaxReplayBuffer (flashbax bits key_of split vault) sl ms bs sp seed = Inr fa0 \<longrightarrow>
      buffer_sample_fn (snd (add_all fa0 ts)) = tb_sample bits bs sl sp) \<and>
   (fst (populate_from_vault (flashbax bits key_of split vault) fa
           env_name scenario_name dataset_name rel_dir) = Inr True \<longrightarrow>
      buffer_sample_fn (snd (populate_from_vault (flashbax bits key_of split vault) fa
           env_name scenario_name dataset_name rel_dir))
        = tb_sample bits (batch_size fa) (sequence_length fa) 1) \<and>
   tb_sample bits n len p (Some s) key =
     (if experience s = [] then Inl IndexError
      else Inr (map (window s len) (choose_offsets bits key n (eligible_offsets len p s)))) \<and>
   set (eligible_offsets len p s) = {off. p dvd off \<and> off + len \<le> occupancy s} \<and>
   set (eligible_offsets len 1 s) = {off. off + len \<le> occupancy s}"
proof -
  have a: "buffer_sample_fn (snd (add_all fa0 ts)) = tb_sample bits bs sl sp"
    if "FlashbaxReplayBuffer (flashbax bits key_of split vault) sl ms bs sp seed = Inr fa0"
    using fresh_facade(3) [OF that] by (simp add: add_all_keeps_sampler)
  have b: "buffer_sample_fn (snd (populate_from_vault (flashbax bits key_of split vault) fa
           env_name scenario_name dataset_name rel_dir))
        = tb_sample bits (batch_size fa) (sequence_length fa) 1"
    if "fst (populate_from_vault (flashbax bits key_of split vault) fa
           env_name scenario_name dataset_name rel_dir) = Inr True"
    using that
    by (auto simp add: populate_from_vault_def Let_def except_ValueError_def flashbax_def
        fbx_make_trajectory_buffer_def jit_def split: sum.splits if_splits)
  have c: "tb_sample bits n len p (Some s) key =
     (if experience s = [] then Inl IndexError
      else Inr (map (window s len) (choose_offsets bits key n (eligible_offsets len p s))))"
    by (simp add: tb_sample_def sample_offsets_def)
  have d: "set (eligible_offsets len q s) = {off. q dvd off \<and> off + len \<le> occupancy s}" for q
    using eligible_offsets_iff [of _ len q s] by blast
  show ?thesis using a b c d [of p] d [of 1] by simp
qed

theorem period_of_sampler_witness:
  "buffer_sample_fn (snd (add_all
       (constructed (FlashbaxReplayBuffer (example_library no_vault) 3 20 1 2 42))
       [reward_step 0])) = tb_sample counter_bits 1 3 2 \<and>
   buffer_sample_fn (snd (populate_from_vault (example_library two_step_vault)
       (constructed (FlashbaxReplayBuffer (example_library two_step_vault) 2 20 1 2 42))
       ''smac'' ''3m'' ''Good'' ''datasets'')) = tb_sample counter_bits 1 2 1"
proof -
  let ?fa = "constructed (FlashbaxReplayBuffer (flashbax counter_bits seed_key tree_split two_step_vault) 2 20 1 2 42)"
  have ok: "fst (populate_from_vault (flashbax counter_bits seed_key tree_split two_step_vault) ?fa
              ''smac'' ''3m'' ''Good'' ''datasets'') = Inr True"
    by (simp add: populate_from_vault_def except_ValueError_def flashbax_def
      two_step_vault_def FlashbaxReplayBuffer_def fbx_make_trajectory_buffer_def constructed_def
      jit_def stored_two_def)
  have cfg: "batch_size ?fa = 1" "sequence_length ?fa = 2"
    by (simp_all add: flashbax_def FlashbaxReplayBuffer_def fbx_make_trajectory_buffer_def
      constructed_def)
  have a: "buffer_sample_fn (snd (add_all
       (constructed (FlashbaxReplayBuffer (flashbax counter_bits seed_key tree_split no_vault) 3 20 1 2 42))
       [reward_step 0])) = tb_sample counter_bits 1 3 2"
    by (rule period_of_sampler [where bits = counter_bits and key_of = seed_key
          and split = tree_split and vault = no_vault and sl = 3 and ms = 20 and bs = 1
          and sp = 2 and seed = 42, THEN conjunct1, THEN mp, OF constructed_flashbax])
  have b: "buffer_sample_fn (snd (populate_from_vault (flashbax counter_bits seed_key tree_split two_step_vault)
       ?fa ''smac'' ''3m'' ''Good'' ''datasets'')) = tb_sample counter_bits 1 2 1"
    using period_of_sampler [where bits = counter_bits and key_of = seed_key
          and split = tree_split and vault = two_step_vault and fa = ?fa,
          THEN conjunct2, THEN conjunct1, THEN mp, OF ok]
    by (simp only: cfg)
  show ?thesis unfolding example_library_def using a b by (rule conjI)
qed

end
